theory Spec2Isabelle
  imports Main
begin

section \<open>Values of the program\<close>

text \<open>
  The module \<^verbatim>\<open>gitlint/git.py\<close> asks git six questions and parses the answers. Two kinds
  of Python string occur: \<^verbatim>\<open>bytes\<close> (the raw output of a process, units of eight bits) and
  \<^verbatim>\<open>str\<close> (decoded text, units are code points). The model keeps them apart: a byte is a
  \<^typ>\<open>char\<close>, a code point is a \<^typ>\<open>nat\<close>. The platform is POSIX: \<^verbatim>\<open>os.linesep\<close> is the
  single line feed, \<^verbatim>\<open>os.path\<close> is \<^verbatim>\<open>posixpath\<close>.
\<close>

type_synonym bytes = string
type_synonym str = "nat list"

text \<open>An ASCII literal of the source as a \<^verbatim>\<open>str\<close>.\<close>

definition u :: "string \<Rightarrow> str" where
  "u s = map of_char s"

text \<open>
  The exceptions the module can meet. \<^verbatim>\<open>AssertionError\<close> carries its message.
\<close>

datatype error =
    CalledProcessError
  | FileNotFoundError
  | UnicodeDecodeError
  | AssertionError str
  | ValueError
  | TypeError
  | AttributeError

text \<open>
  The external tool is a black box: for an argument vector it exits with status zero and
  some output, exits with another status, or cannot be started at all (no executable on
  the path). All six queries are read-only, so the tool is a function of its arguments.
\<close>

datatype proc_result = Exited0 bytes | ExitedNonzero | NotFound

type_synonym git_tool = "str list \<Rightarrow> proc_result"

text \<open>
  A computation of the module yields the argument vectors it has handed to
  \<^verbatim>\<open>subprocess.check_output\<close>, in order, and either an exception or a value.
\<close>

type_synonym 'a io = "str list list \<times> (error + 'a)"

definition io_return :: "'a \<Rightarrow> 'a io" where
  "io_return x = ([], Inr x)"

definition io_raise :: "error \<Rightarrow> 'a io" where
  "io_raise e = ([], Inl e)"

definition io_bind :: "'a io \<Rightarrow> ('a \<Rightarrow> 'b io) \<Rightarrow> 'b io" where
  "io_bind m f =
     (case m of
        (t, Inl e) \<Rightarrow> (t, Inl e)
      | (t, Inr x) \<Rightarrow> (case f x of (t', r) \<Rightarrow> (t @ t', r)))"

text \<open>
  \<^verbatim>\<open>subprocess.check_output(args)\<close>: \<^verbatim>\<open>CalledProcessError\<close> on a non-zero exit status,
  \<^verbatim>\<open>FileNotFoundError\<close> when the executable is missing.
\<close>

definition check_output :: "git_tool \<Rightarrow> str list \<Rightarrow> bytes io" where
  "check_output git args =
     ([args],
      case git args of
        Exited0 out \<Rightarrow> Inr out
      | ExitedNonzero \<Rightarrow> Inl CalledProcessError
      | NotFound \<Rightarrow> Inl FileNotFoundError)"

subsection \<open>Built-ins of the language\<close>

text \<open>\<^verbatim>\<open>bytes.strip()\<close> removes ASCII white space at both ends.\<close>

definition bytes_space :: "char \<Rightarrow> bool" where
  "bytes_space c = (c \<in> set [CHR '' '', CHR 0x09, CHR 0x0A, CHR 0x0B, CHR 0x0C, CHR 0x0D])"

definition strip :: "bytes \<Rightarrow> bytes" where
  "strip b = rev (dropWhile bytes_space (rev (dropWhile bytes_space b)))"

text \<open>
  \<^verbatim>\<open>s.split(sep)\<close> for a separator of one unit: one more part than there are separators,
  so the empty string splits into one empty part.
\<close>

fun split_on :: "'a \<Rightarrow> 'a list \<Rightarrow> 'a list list" where
  "split_on sep [] = [ [] ]"
| "split_on sep (x # xs) =
     (if x = sep then [] # split_on sep xs
      else (case split_on sep xs of [] \<Rightarrow> [ [x] ] | l # ls \<Rightarrow> (x # l) # ls))"

text \<open>
  \<^verbatim>\<open>bytes.decode('utf-8')\<close>, strict: well-formed UTF-8 only (no overlong form, no
  surrogate, nothing above U+10FFFF); anything else raises \<^verbatim>\<open>UnicodeDecodeError\<close>, here
  \<^const>\<open>None\<close>.
\<close>

definition cont :: "nat \<Rightarrow> bool" where
  "cont b = (128 \<le> b \<and> b < 192)"

fun utf8 :: "nat list \<Rightarrow> nat list option" where
  "utf8 [] = Some []"
| "utf8 (a # bs) =
     (if a < 128 then map_option ((#) a) (utf8 bs)
      else if 194 \<le> a \<and> a < 224 then
        (case bs of
           b # r \<Rightarrow>
             if cont b then map_option ((#) ((a - 192) * 64 + (b - 128))) (utf8 r) else None
         | _ \<Rightarrow> None)
      else if 224 \<le> a \<and> a < 240 then
        (case bs of
           b # c # r \<Rightarrow>
             if (if a = 224 then 160 else 128) \<le> b \<and> b < (if a = 237 then 160 else 192) \<and> cont c
             then map_option ((#) ((a - 224) * 4096 + (b - 128) * 64 + (c - 128))) (utf8 r)
             else None
         | _ \<Rightarrow> None)
      else if 240 \<le> a \<and> a < 245 then
        (case bs of
           b # c # d # r \<Rightarrow>
             if (if a = 240 then 144 else 128) \<le> b \<and> b < (if a = 244 then 144 else 192)
                \<and> cont c \<and> cont d
             then map_option
                    ((#) ((a - 240) * 262144 + (b - 128) * 4096 + (c - 128) * 64 + (d - 128)))
                    (utf8 r)
             else None
         | _ \<Rightarrow> None)
      else None)"

definition decode_utf8 :: "bytes \<Rightarrow> str option" where
  "decode_utf8 b = utf8 (map of_char b)"

text \<open>\<^verbatim>\<open>posixpath.isabs\<close> and \<^verbatim>\<open>posixpath.join\<close> of two paths.\<close>

definition isabs :: "str \<Rightarrow> bool" where
  "isabs p = (case p of [] \<Rightarrow> False | c # _ \<Rightarrow> c = 47)"

definition path_join :: "str \<Rightarrow> str \<Rightarrow> str" where
  "path_join a b =
     (if isabs b then b
      else if a = [] \<or> last a = 47 then a @ b
      else a @ [47] @ b)"

text \<open>
  \<^verbatim>\<open>int(b)\<close> on a run of ASCII digits. The built-in accepts more (a sign, white space
  around, underscores); the one call site hands it what \<^verbatim>\<open>\d+\<close> has matched in a
  \<^verbatim>\<open>bytes\<close> pattern, and every other argument is answered \<^const>\<open>ValueError\<close> here. The
  interpreter refuses to convert more than 4300 digits (its default limit, leading zeros
  counted) and raises \<^const>\<open>ValueError\<close>.
\<close>

definition is_digit :: "char \<Rightarrow> bool" where
  "is_digit c = (48 \<le> (of_char c :: nat) \<and> (of_char c :: nat) \<le> 57)"

definition dec :: "bytes \<Rightarrow> int" where
  "dec ds = foldl (\<lambda>n c. 10 * n + (int (of_char c) - 48)) 0 ds"

section \<open>Regular expressions\<close>

text \<open>
  The patterns of the module use literals, character classes, concatenation,
  alternation, the greedy \<^verbatim>\<open>+\<close> and groups. The standard library is not
  repository code; the matcher below is the backtracking semantics of \<^verbatim>\<open>re\<close> on this
  fragment: all ways to match a prefix, in the order the library tries them (left
  alternative first, longest repetition first), each with the text that is left and the
  groups captured so far (the latest capture of a name first).
\<close>

datatype 'a rx =
    Eps
  | Sym "'a \<Rightarrow> bool"
  | Cat "'a rx" "'a rx"
  | Alt "'a rx" "'a rx"
  | Plus "'a rx"
  | Grp string "'a rx"

type_synonym 'a caps = "(string \<times> 'a list) list"

fun ms :: "'a rx \<Rightarrow> 'a list \<Rightarrow> 'a caps \<Rightarrow> ('a list \<times> 'a caps) list" where
  "ms Eps s c = [(s, c)]"
| "ms (Sym p) s c = (case s of [] \<Rightarrow> [] | x # xs \<Rightarrow> if p x then [(xs, c)] else [])"
| "ms (Cat r1 r2) s c = concat (map (\<lambda>o1. ms r2 (fst o1) (snd o1)) (ms r1 s c))"
| "ms (Alt r1 r2) s c = ms r1 s c @ ms r2 s c"
| "ms (Plus r) s c =
     concat (map (\<lambda>o1. (if length (fst o1) < length s
                         then ms (Plus r) (fst o1) (snd o1) else []) @ [o1])
       (ms r s c))"
| "ms (Grp n r) s c =
     map (\<lambda>o1. (fst o1, (n, take (length s - length (fst o1)) s) # snd o1)) (ms r s c)"

text \<open>A literal string, and \<^verbatim>\<open>'|'.join(...)\<close> of alternatives.\<close>

definition lit :: "'a list \<Rightarrow> 'a rx" where
  "lit s = foldr (\<lambda>x r. Cat (Sym (\<lambda>y. y = x)) r) s Eps"

fun alts :: "'a rx list \<Rightarrow> 'a rx" where
  "alts [] = Eps"
| "alts [r] = r"
| "alts (r # rs) = Alt r (alts rs)"

text \<open>
  \<^verbatim>\<open>pattern.match(line)\<close> tries the start of the line only; \<^verbatim>\<open>pattern.search(line)\<close>
  tries every position from the left and takes the first that matches.
\<close>

definition re_match :: "'a rx \<Rightarrow> 'a list \<Rightarrow> 'a caps option" where
  "re_match r s = (case ms r s [] of [] \<Rightarrow> None | o1 # _ \<Rightarrow> Some (snd o1))"

fun re_search :: "'a rx \<Rightarrow> 'a list \<Rightarrow> 'a caps option" where
  "re_search r [] = re_match r []"
| "re_search r (x # xs) =
     (case re_match r (x # xs) of Some c \<Rightarrow> Some c | None \<Rightarrow> re_search r xs)"

text \<open>The classes: \<^verbatim>\<open>.\<close> and \<^verbatim>\<open>\s\<close> in a \<^verbatim>\<open>str\<close> pattern, \<^verbatim>\<open>\d\<close> in a \<^verbatim>\<open>bytes\<close> pattern.\<close>

definition dot :: "nat \<Rightarrow> bool" where
  "dot c = (c \<noteq> 10)"

definition uni_space :: "nat \<Rightarrow> bool" where
  "uni_space c =
     ((9 \<le> c \<and> c \<le> 13) \<or> (28 \<le> c \<and> c \<le> 32) \<or> c = 133 \<or> c = 160 \<or> c = 5760
      \<or> (8192 \<le> c \<and> c \<le> 8202) \<or> c = 8232 \<or> c = 8233 \<or> c = 8239 \<or> c = 8287
      \<or> c = 12288)"

section \<open>The line filter\<close>

text \<open>
  Modelled from the spec: the match primitive of \<^verbatim>\<open>gitlint.utils.filter_lines\<close>, a
  function that \<^verbatim>\<open>git.py\<close> imports and that is not among the sources. The specification
  (4.3) says that a match is attempted for every input line; it does not say whether the
  match is tried at the start of the line only or anywhere in it. The primitive is a
  parameter, and every result below holds for both.
\<close>

datatype match_prim = AtStart | Anywhere

definition re_find :: "match_prim \<Rightarrow> 'a rx \<Rightarrow> 'a list \<Rightarrow> 'a caps option" where
  "re_find mp r s = (case mp of AtStart \<Rightarrow> re_match r s | Anywhere \<Rightarrow> re_search r s)"

text \<open>
  Modelled from the spec: what \<^verbatim>\<open>filter_lines\<close> yields for a match (4.3), the values of the
  named groups in the requested order as a tuple, or a bare value when exactly one group
  is requested. A group that took no part in the match has the value \<^verbatim>\<open>None\<close>.
\<close>

datatype 'a yielded = Bare "'a list option" | Tuple "'a list option list"

definition yield :: "string list \<Rightarrow> 'a caps \<Rightarrow> 'a yielded" where
  "yield groups c =
     (case groups of [g] \<Rightarrow> Bare (map_of c g) | _ \<Rightarrow> Tuple (map (map_of c) groups))"

text \<open>
  Modelled from the spec: \<^verbatim>\<open>gitlint.utils.filter_lines\<close> (4.3). For every input line a
  match is attempted; a line that does not match is skipped and is no error; a line
  that matches yields its groups. The same definition serves \<^verbatim>\<open>bytes\<close> and \<^verbatim>\<open>str\<close>.
\<close>

definition filter_lines ::
  "match_prim \<Rightarrow> 'a list list \<Rightarrow> 'a rx \<Rightarrow> string list \<Rightarrow> 'a yielded list" where
  "filter_lines mp lines pattern groups =
     List.map_filter (\<lambda>line. map_option (yield groups) (re_find mp pattern line)) lines"

section \<open>Repository locator\<close>

definition rev_parse_toplevel :: "str list" where
  "rev_parse_toplevel = [u ''git'', u ''rev-parse'', u ''--show-toplevel'']"

definition rev_parse_head :: "str list" where
  "rev_parse_head = [u ''git'', u ''rev-parse'', u ''HEAD'']"

definition log_cmd :: "str \<Rightarrow> str list" where
  "log_cmd master =
     [u ''git'', u ''log'', u ''origin/'' @ master @ u ''..HEAD'', u ''--oneline'',
      u ''--no-merges'', u ''--pretty=%H'']"

text \<open>
  The body of the \<^verbatim>\<open>try\<close> of \<^verbatim>\<open>repository_root\<close> and \<^verbatim>\<open>last_commit\<close>: run the command,
  strip the output, decode it.
\<close>

definition stripped_output :: "git_tool \<Rightarrow> str list \<Rightarrow> str io" where
  "stripped_output git args =
     io_bind (check_output git args) (\<lambda>out.
       case decode_utf8 (strip out) of
         None \<Rightarrow> io_raise UnicodeDecodeError
       | Some s \<Rightarrow> io_return s)"

text \<open>\<^verbatim>\<open>except subprocess.CalledProcessError: return dflt\<close>; nothing else is caught.\<close>

definition except_called_process_error :: "'a io \<Rightarrow> 'a \<Rightarrow> 'a io" where
  "except_called_process_error m dflt =
     (case m of (t, Inl CalledProcessError) \<Rightarrow> (t, Inr dflt) | _ \<Rightarrow> m)"

definition repository_root :: "git_tool \<Rightarrow> str option io" where
  "repository_root git =
     except_called_process_error
       (io_bind (stripped_output git rev_parse_toplevel) (\<lambda>root. io_return (Some root)))
       None"

definition last_commit :: "git_tool \<Rightarrow> str option io" where
  "last_commit git =
     except_called_process_error
       (io_bind (stripped_output git rev_parse_head) (\<lambda>root. io_return (Some root)))
       None"

definition commits_head_to_main :: "git_tool \<Rightarrow> str \<Rightarrow> str list io" where
  "commits_head_to_main git master =
     except_called_process_error
       (io_bind (stripped_output git (log_cmd master)) (\<lambda>commits.
          io_return (split_on 10 commits)))
       []"

section \<open>Modified files\<close>

definition remove_filename_quotes :: "str \<Rightarrow> str" where
  "remove_filename_quotes filename =
     (if filename \<noteq> [] \<and> hd filename = 34 \<and> last filename = 34
      then butlast (tl filename) else filename)"

definition status_cmd :: "str list" where
  "status_cmd =
     [u ''git'', u ''status'', u ''--porcelain'', u ''--untracked-files=all'',
      u ''--ignore-submodules=all'']"

definition diff_tree_cmd :: "str \<Rightarrow> str list" where
  "diff_tree_cmd commit =
     [u ''git'', u ''diff-tree'', u ''-r'', u ''--root'', u ''--no-commit-id'',
      u ''--name-status'', commit]"

text \<open>
  The two patterns. In \<^verbatim>\<open>modes\<close> the entry \<^verbatim>\<open>\?\?\<close> is the literal of two question marks.
\<close>

definition modes :: "bool \<Rightarrow> str list" where
  "modes tracked_only =
     [u ''M '', u '' M'', u ''A '', u ''AM'', u ''MM''] @ (if \<not> tracked_only then [u ''??''] else [])"

definition status_rx :: "bool \<Rightarrow> nat rx" where
  "status_rx tracked_only =
     Cat (Grp ''mode'' (alts (map lit (modes tracked_only))))
       (Cat (Sym (\<lambda>c. c = 32)) (Grp ''filename'' (Plus (Sym dot))))"

definition diff_tree_rx :: "nat rx" where
  "diff_tree_rx =
     Cat (Grp ''mode'' (Alt (lit (u ''A'')) (lit (u ''M''))))
       (Cat (Sym uni_space) (Grp ''filename'' (Plus (Sym dot))))"

text \<open>
  \<^verbatim>\<open>for filename, mode in modified_file_status\<close> and the expression of the generator.
  A group without a value cannot come out of these patterns (both groups take part in
  every match); where Python would go on with \<^verbatim>\<open>None\<close> the model stops with the
  exception the next operation on it raises, or \<^const>\<open>TypeError\<close> where it would store it.
\<close>

definition unpack2 :: "'a yielded \<Rightarrow> error + ('a list option \<times> 'a list option)" where
  "unpack2 y = (case y of Tuple [a, b] \<Rightarrow> Inr (a, b) | Tuple _ \<Rightarrow> Inl ValueError | Bare _ \<Rightarrow> Inl TypeError)"

definition entry :: "str \<Rightarrow> str \<Rightarrow> nat yielded \<Rightarrow> error + (str \<times> str)" where
  "entry root suffix y =
     (case unpack2 y of
        Inl e \<Rightarrow> Inl e
      | Inr (None, _) \<Rightarrow> Inl AttributeError
      | Inr (Some filename, None) \<Rightarrow> Inl TypeError
      | Inr (Some filename, Some mode) \<Rightarrow>
          Inr (path_join root (remove_filename_quotes filename), mode @ suffix))"

text \<open>\<^verbatim>\<open>dict(...)\<close> of the generated pairs: a later pair replaces an earlier one.\<close>

fun dict_of :: "str \<Rightarrow> str \<Rightarrow> (str \<rightharpoonup> str) \<Rightarrow> nat yielded list \<Rightarrow> error + (str \<rightharpoonup> str)" where
  "dict_of root suffix d [] = Inr d"
| "dict_of root suffix d (y # ys) =
     (case entry root suffix y of
        Inl e \<Rightarrow> Inl e
      | Inr (k, v) \<Rightarrow> dict_of root suffix (d(k \<mapsto> v)) ys)"

definition io_of :: "error + 'a \<Rightarrow> 'a io" where
  "io_of r = ([], r)"

definition modified_files_with_commit ::
  "match_prim \<Rightarrow> git_tool \<Rightarrow> str \<Rightarrow> str \<Rightarrow> (str \<rightharpoonup> str) io" where
  "modified_files_with_commit mp git root commit =
     io_bind (check_output git (diff_tree_cmd commit)) (\<lambda>out.
       case decode_utf8 out of
         None \<Rightarrow> io_raise UnicodeDecodeError
       | Some text \<Rightarrow>
           let status_lines = split_on 10 text;
               modified_file_status =
                 filter_lines mp status_lines diff_tree_rx [''filename'', ''mode'']
           in io_of (dict_of root (u '' '') Map.empty modified_file_status))"

text \<open>The loop over the commits: \<^verbatim>\<open>list_of_modified.update(modified_files_commit)\<close>.\<close>

fun update_all ::
  "match_prim \<Rightarrow> git_tool \<Rightarrow> str \<Rightarrow> (str \<rightharpoonup> str) \<Rightarrow> str list \<Rightarrow> (str \<rightharpoonup> str) io" where
  "update_all mp git root list_of_modified [] = io_return list_of_modified"
| "update_all mp git root list_of_modified (commit # commits) =
     io_bind (modified_files_with_commit mp git root commit) (\<lambda>modified_files_commit.
       update_all mp git root (list_of_modified ++ modified_files_commit) commits)"

text \<open>
  \<^verbatim>\<open>modified_files\<close>. The assertion is the first statement (assertions enabled, the
  interpreter's default); \<^verbatim>\<open>if commits:\<close> holds for a list that is neither \<^verbatim>\<open>None\<close> nor
  empty.
\<close>

definition modified_files ::
  "match_prim \<Rightarrow> git_tool \<Rightarrow> str \<Rightarrow> bool \<Rightarrow> str list option \<Rightarrow> (str \<rightharpoonup> str) io" where
  "modified_files mp git root tracked_only commits =
     (if \<not> isabs root then io_raise (AssertionError (u ''Root has to be absolute, got: '' @ root))
      else case commits of
        Some (c # cs) \<Rightarrow> update_all mp git root Map.empty (c # cs)
      | _ \<Rightarrow>
        io_bind (check_output git status_cmd) (\<lambda>out.
          case decode_utf8 out of
            None \<Rightarrow> io_raise UnicodeDecodeError
          | Some text \<Rightarrow>
              let status_lines = split_on 10 text;
                  modified_file_status =
                    filter_lines mp status_lines (status_rx tracked_only) [''filename'', ''mode'']
              in io_of (dict_of root [] Map.empty modified_file_status)))"

section \<open>Modified lines\<close>

text \<open>
  A commit id is the complete SHA-1 of a commit (the docstrings of \<^verbatim>\<open>modified_lines\<close> and
  \<^verbatim>\<open>modified_lines_for_pr\<close>): hexadecimal digits. Each is one byte in UTF-8, so
  \<^verbatim>\<open>commit.encode('utf-8')\<close> cannot fail, and each stands for itself in a pattern.
\<close>

datatype hexdigit =
  H0 | H1 | H2 | H3 | H4 | H5 | H6 | H7 | H8 | H9 | Ha | Hb | Hc | Hd | He | Hf

fun hexchar :: "hexdigit \<Rightarrow> char" where
  "hexchar H0 = CHR ''0''" | "hexchar H1 = CHR ''1''" | "hexchar H2 = CHR ''2''"
| "hexchar H3 = CHR ''3''" | "hexchar H4 = CHR ''4''" | "hexchar H5 = CHR ''5''"
| "hexchar H6 = CHR ''6''" | "hexchar H7 = CHR ''7''" | "hexchar H8 = CHR ''8''"
| "hexchar H9 = CHR ''9''" | "hexchar Ha = CHR ''a''" | "hexchar Hb = CHR ''b''"
| "hexchar Hc = CHR ''c''" | "hexchar Hd = CHR ''d''" | "hexchar He = CHR ''e''"
| "hexchar Hf = CHR ''f''"

type_synonym sha = "hexdigit list"

definition encode :: "sha \<Rightarrow> bytes" where
  "encode commit = map hexchar commit"

definition blame_cmd :: "str \<Rightarrow> str list" where
  "blame_cmd filename = [u ''git'', u ''blame'', u ''--porcelain'', filename]"

text \<open>
  \<^verbatim>\<open>commit + br' (?P<line>\d+) (\d+)'\<close>; the second group has no name, it is group 2.
\<close>

definition blame_rx :: "bytes \<Rightarrow> char rx" where
  "blame_rx commit =
     Cat (lit commit)
       (Cat (Sym (\<lambda>c. c = CHR '' ''))
         (Cat (Grp ''line'' (Plus (Sym is_digit)))
           (Cat (Sym (\<lambda>c. c = CHR '' '')) (Grp ''2'' (Plus (Sym is_digit))))))"

definition py_int :: "char yielded \<Rightarrow> error + int" where
  "py_int y =
     (case y of
        Bare (Some ds) \<Rightarrow>
          if ds \<noteq> [] \<and> list_all is_digit ds \<and> length ds \<le> 4300 then Inr (dec ds)
          else Inl ValueError
      | _ \<Rightarrow> Inl TypeError)"

text \<open>\<^verbatim>\<open>list(map(int, ...))\<close>: the first conversion that raises ends it.\<close>

fun map_int :: "char yielded list \<Rightarrow> error + int list" where
  "map_int [] = Inr []"
| "map_int (y # ys) =
     (case py_int y of
        Inl e \<Rightarrow> Inl e
      | Inr n \<Rightarrow> (case map_int ys of Inl e \<Rightarrow> Inl e | Inr ns \<Rightarrow> Inr (n # ns)))"

text \<open>
  \<^verbatim>\<open>modified_lines\<close>: \<^const>\<open>None\<close> inside the result is Python's \<^verbatim>\<open>None\<close> (all lines are
  new), \<^term>\<open>Some []\<close> the empty list.
\<close>

definition modified_lines ::
  "match_prim \<Rightarrow> git_tool \<Rightarrow> str \<Rightarrow> str option \<Rightarrow> sha option \<Rightarrow> int list option io" where
  "modified_lines mp git filename extra_data commit =
     (case extra_data of
        None \<Rightarrow> io_return (Some [])
      | Some status \<Rightarrow>
          if status \<notin> set [u ''M '', u '' M'', u ''MM''] then io_return None
          else
            let commit = encode (case commit of None \<Rightarrow> replicate 40 H0 | Some c \<Rightarrow> c)
            in io_bind (check_output git (blame_cmd filename)) (\<lambda>out.
                 let blame_lines = split_on (CHR 0x0A) out;
                     modified_line_numbers =
                       filter_lines mp blame_lines (blame_rx commit) [''line'']
                 in io_bind (io_of (map_int modified_line_numbers)) (\<lambda>line_numbers.
                      io_return (Some (if line_numbers \<noteq> [] then line_numbers else [])))))"

text \<open>
  \<^verbatim>\<open>modified_lines_for_pr\<close>: \<^verbatim>\<open>if result:\<close> holds for a list that is neither \<^verbatim>\<open>None\<close> nor
  empty.
\<close>

fun pr_loop ::
  "match_prim \<Rightarrow> git_tool \<Rightarrow> str \<Rightarrow> str option \<Rightarrow> int list \<Rightarrow> sha list \<Rightarrow> int list io" where
  "pr_loop mp git filename extra_data line_numbers_map [] = io_return line_numbers_map"
| "pr_loop mp git filename extra_data line_numbers_map (commit # commits) =
     io_bind (modified_lines mp git filename extra_data (Some commit)) (\<lambda>result.
       pr_loop mp git filename extra_data
         (case result of
            Some (x # xs) \<Rightarrow> line_numbers_map @ (x # xs)
          | _ \<Rightarrow> line_numbers_map)
         commits)"

definition modified_lines_for_pr ::
  "match_prim \<Rightarrow> git_tool \<Rightarrow> str \<Rightarrow> str option \<Rightarrow> sha list \<Rightarrow> int list io" where
  "modified_lines_for_pr mp git filename extra_data commits =
     pr_loop mp git filename extra_data [] commits"

section \<open>The line-number field, in the words of the specification\<close>

text \<open>
  The specification (4.5) has \<^verbatim>\<open>modified_lines\<close> match the entries of the blame output that
  are attributed to the target revision and capture their line-number field. Written
  without the pattern: a line holds such an entry at its start when it starts with the
  revision id and a space, then a run of digits (the field), then a space and one more
  digit. \<^term>\<open>line_field\<close> looks at the start of the line or at the first place in the line
  that holds an entry, as the match primitive says.
\<close>

definition entry_line_field :: "bytes \<Rightarrow> bytes \<Rightarrow> bytes option" where
  "entry_line_field commit s =
     (if take (length commit + 1) s = commit @ '' '' then
        let t = drop (length commit + 1) s; ds = takeWhile is_digit t in
        (case dropWhile is_digit t of
           sp # d # _ \<Rightarrow> if ds \<noteq> [] \<and> sp = CHR '' '' \<and> is_digit d then Some ds else None
         | _ \<Rightarrow> None)
      else None)"

fun first_from :: "('a list \<Rightarrow> 'b option) \<Rightarrow> 'a list \<Rightarrow> 'b option" where
  "first_from f [] = f []"
| "first_from f (x # xs) = (case f (x # xs) of Some y \<Rightarrow> Some y | None \<Rightarrow> first_from f xs)"

definition line_field :: "match_prim \<Rightarrow> bytes \<Rightarrow> bytes \<Rightarrow> bytes option" where
  "line_field mp commit s =
     (case mp of AtStart \<Rightarrow> entry_line_field commit s
      | Anywhere \<Rightarrow> first_from (entry_line_field commit) s)"

text \<open>The fields of the entries of a revision in a blame output, in the order of the output.\<close>

definition blame_fields :: "match_prim \<Rightarrow> bytes \<Rightarrow> bytes \<Rightarrow> bytes list" where
  "blame_fields mp commit out = List.map_filter (line_field mp commit) (split_on (CHR 0x0A) out)"

section \<open>A status line, in the words of the specification\<close>

text \<open>
  The specification (4.4) has \<^verbatim>\<open>modified_files\<close> filter the lines of the status output
  with a pattern for one of the status codes followed by a file name, the rest of the
  line, and build the map from the path joined to the root (quotes stripped) to the code.
  Written without the pattern: a line holds an entry at its start when its first two
  characters are one of the codes, a space follows, and at least one character that is no
  line feed follows; the file name is the run of such characters. \<^term>\<open>status_entry\<close>
  looks at the start of the line or at the first place in the line that holds an entry,
  as the match primitive says; an entry is the pair of the file name and the code.
\<close>

definition status_entry_at :: "bool \<Rightarrow> str \<Rightarrow> (str \<times> str) option" where
  "status_entry_at tracked_only s =
     (if take 2 s \<in> set (modes tracked_only) then
        (case drop 2 s of
           [] \<Rightarrow> None
         | sp # rest \<Rightarrow>
             if sp = 32 \<and> takeWhile dot rest \<noteq> [] then Some (takeWhile dot rest, take 2 s)
             else None)
      else None)"

definition status_entry :: "match_prim \<Rightarrow> bool \<Rightarrow> str \<Rightarrow> (str \<times> str) option" where
  "status_entry mp tracked_only s =
     (case mp of AtStart \<Rightarrow> status_entry_at tracked_only s
      | Anywhere \<Rightarrow> first_from (status_entry_at tracked_only) s)"

definition status_entries :: "match_prim \<Rightarrow> bool \<Rightarrow> str \<Rightarrow> (str \<times> str) list" where
  "status_entries mp tracked_only text' =
     List.map_filter (status_entry mp tracked_only) (split_on 10 text')"

text \<open>The key and the value an entry gives: the path under the root, and the code.\<close>

definition status_pair :: "str \<Rightarrow> str \<times> str \<Rightarrow> str \<times> str" where
  "status_pair root e = (path_join root (remove_filename_quotes (fst e)), snd e)"

section \<open>Example data\<close>


definition blame_two_commits :: bytes where
  "blame_two_commits =
     ''aaaaaaaaaaaaaaaaaaaaaaaaaaaaaaaaaaaaaaaa 5 7 1'' @ [CHR 0x0A] @
     [CHR 0x09] @ ''x = 1'' @ [CHR 0x0A] @
     ''bbbbbbbbbbbbbbbbbbbbbbbbbbbbbbbbbbbbbbbb 5 5 1'' @ [CHR 0x0A] @
     [CHR 0x09] @ ''y = 2'' @ [CHR 0x0A]"



text \<open>
  Status output with a quoted file name, and a tool that knows two commits: the first
  added \<^verbatim>\<open>F.py\<close>, the second modified it.
\<close>

definition quoted_status :: bytes where
  "quoted_status = ''A  \"weird name.txt\"'' @ [CHR 0x0A]"

definition first_commit :: str where
  "first_commit = u ''4b825dc642cb6eb9a060e54bf8d69288fbee4904''"

definition second_commit :: str where
  "second_commit = u ''9fceb02d0ae598e95dc970b74767f19372d61af8''"

definition two_commit_tool :: git_tool where
  "two_commit_tool args =
     (if args = diff_tree_cmd first_commit then Exited0 (''A'' @ [CHR 0x09] @ ''F.py'' @ [CHR 0x0A])
      else if args = diff_tree_cmd second_commit then Exited0 (''M'' @ [CHR 0x09] @ ''F.py'' @ [CHR 0x0A])
      else ExitedNonzero)"

section \<open>Lemmas on the matcher\<close>

text \<open>The equations of the matcher are applied by name, one step at a time.\<close>

declare ms.simps [simp del]

lemma u_simps: "u [] = []" "u (c # cs) = of_char c # u cs"
  by (simp_all add: u_def)

lemma ms_lit: "ms (lit w) s c = (if take (length w) s = w then [(drop (length w) s, c)] else [])"
proof (induction w arbitrary: s)
  case Nil
  then show ?case by (simp add: lit_def ms.simps)
next
  case (Cons a w)
  have unf: "lit (a # w) = Cat (Sym (\<lambda>y. y = a)) (lit w)" by (simp add: lit_def)
  show ?case
  proof (cases s)
    case Nil
    then show ?thesis by (simp add: unf ms.simps)
  next
    case (Cons b t)
    then show ?thesis using Cons.IH [of t] by (simp add: unf ms.simps(2,3))
  qed
qed

lemma ms_plus_sym_Nil: "ms (Plus (Sym p)) [] c = []"
  by (simp add: ms.simps)

lemma ms_plus_sym_Cons:
  "ms (Plus (Sym p)) (x # xs) c = (if p x then ms (Plus (Sym p)) xs c @ [(xs, c)] else [])"
  by (subst ms.simps(5)) (simp add: ms.simps(2))

lemma rev_upt_shift: "rev [1..<Suc (Suc n)] = map Suc (rev [1..<Suc n]) @ [1]"
proof -
  have "[1..<Suc (Suc n)] = 1 # map Suc [1..<Suc n]"
    by (metis One_nat_def map_Suc_upt upt_conv_Cons zero_less_Suc Suc_less_eq)
  then show ?thesis by (simp add: rev_map)
qed

lemma ms_plus_sym:
  "ms (Plus (Sym p)) s c = map (\<lambda>k. (drop k s, c)) (rev [1..<Suc (length (takeWhile p s))])"
proof (induction s)
  case Nil
  then show ?case by (simp add: ms_plus_sym_Nil)
next
  case (Cons x xs)
  show ?case
  proof (cases "p x")
    case True
    have "ms (Plus (Sym p)) (x # xs) c = ms (Plus (Sym p)) xs c @ [(xs, c)]"
      using True by (simp only: ms_plus_sym_Cons if_True)
    also have "\<dots> = map (\<lambda>k. (drop k xs, c)) (rev [1..<Suc (length (takeWhile p xs))]) @ [(xs, c)]"
      by (simp only: Cons.IH)
    also have "\<dots> = map (\<lambda>k. (drop k (x # xs), c)) (rev [1..<Suc (Suc (length (takeWhile p xs)))])"
      by (simp only: rev_upt_shift) (simp add: comp_def)
    finally show ?thesis using True by simp
  next
    case False
    then show ?thesis by (simp add: ms_plus_sym_Cons)
  qed
qed


lemma ms_grp_plus_sym:
  "ms (Grp n (Plus (Sym p))) s c =
     map (\<lambda>k. (drop k s, (n, take k s) # c)) (rev [1..<Suc (length (takeWhile p s))])"
proof -
  have le: "length (takeWhile p s) \<le> length s" by (rule length_takeWhile_le)
  have "ms (Grp n (Plus (Sym p))) s c =
      map (\<lambda>o1. (fst o1, (n, take (length s - length (fst o1)) s) # snd o1)) (ms (Plus (Sym p)) s c)"
    by (rule ms.simps(6))
  also have "\<dots> = map (\<lambda>k. (drop k s, (n, take (length s - length (drop k s)) s) # c))
      (rev [1..<Suc (length (takeWhile p s))])"
    by (simp only: ms_plus_sym) (simp add: comp_def)
  also have "\<dots> = map (\<lambda>k. (drop k s, (n, take k s) # c)) (rev [1..<Suc (length (takeWhile p s))])"
    using le by (intro map_cong) auto
  finally show ?thesis .
qed

lemma takeWhile_run:
  assumes "k < length (takeWhile p s)"
  shows "\<exists>x xs. drop k s = x # xs \<and> p x"
proof -
  have ks: "k < length s" using assms length_takeWhile_le [of p s] by (simp add: less_le_trans)
  have "takeWhile p s ! k = s ! k" using assms by (rule takeWhile_nth)
  moreover have "p (takeWhile p s ! k)" using assms by (metis nth_mem set_takeWhileD)
  ultimately have "p (s ! k)" by simp
  moreover have "drop k s = s ! k # drop (Suc k) s" using ks by (simp add: Cons_nth_drop_Suc)
  ultimately show ?thesis by blast
qed

lemma ms_run_then:
  assumes R: "\<And>x xs c. p x \<Longrightarrow> ms R (x # xs) c = []"
  shows "ms (Cat (Grp n (Plus (Sym p))) R) s c =
     (if takeWhile p s = [] then [] else ms R (dropWhile p s) ((n, takeWhile p s) # c))"
proof (cases "takeWhile p s = []")
  case True
  then show ?thesis by (simp only: ms.simps(3) ms_grp_plus_sym) simp
next
  case False
  define N where "N = length (takeWhile p s)"
  have N: "0 < N" using False by (simp add: N_def)
  have ups: "rev [1..<Suc N] = N # rev [1..<N]" using N by simp
  have small: "ms R (drop k s) ((n, take k s) # c) = []" if "k \<in> set (rev [1..<N])" for k
  proof -
    have "k < length (takeWhile p s)" using that by (simp add: N_def)
    then obtain x xs where "drop k s = x # xs" "p x" using takeWhile_run by blast
    then show ?thesis by (simp add: R)
  qed
  have "ms (Cat (Grp n (Plus (Sym p))) R) s c =
      concat (map (\<lambda>k. ms R (drop k s) ((n, take k s) # c)) (rev [1..<Suc N]))"
    by (simp only: ms.simps(3) ms_grp_plus_sym N_def) (simp add: comp_def)
  also have "\<dots> = ms R (drop N s) ((n, take N s) # c)
      @ concat (map (\<lambda>k. ms R (drop k s) ((n, take k s) # c)) (rev [1..<N]))"
    by (simp only: ups) simp
  also have "concat (map (\<lambda>k. ms R (drop k s) ((n, take k s) # c)) (rev [1..<N])) = []"
    using small by (simp del: set_rev set_upt)
  finally show ?thesis using False
    by (simp add: N_def dropWhile_eq_drop [symmetric] takeWhile_eq_take [symmetric])
qed

lemma ms_grp_run_empty:
  "ms (Grp n (Plus (Sym p))) s c = [] \<longleftrightarrow> takeWhile p s = []"
  by (simp only: ms_grp_plus_sym) (cases "takeWhile p s", auto)

lemma ms_grp_run_hd:
  assumes "takeWhile p s \<noteq> []"
  shows "\<exists>rest. ms (Grp n (Plus (Sym p))) s c = (dropWhile p s, (n, takeWhile p s) # c) # rest"
proof -
  define N where "N = length (takeWhile p s)"
  have N: "0 < N" using assms by (simp add: N_def)
  have ups: "rev [1..<Suc N] = N # rev [1..<N]" using N by simp
  show ?thesis
    by (simp only: ms_grp_plus_sym N_def [symmetric] ups)
       (simp add: N_def dropWhile_eq_drop [symmetric] takeWhile_eq_take [symmetric])
qed


lemma ms_cat_lit:
  "ms (Cat (lit w) r) s c = (if take (length w) s = w then ms r (drop (length w) s) c else [])"
  by (subst ms.simps(3)) (simp add: ms_lit)

lemma ms_cat_sym:
  "ms (Cat (Sym p) r) s c = (case s of [] \<Rightarrow> [] | x # xs \<Rightarrow> if p x then ms r xs c else [])"
  by (subst ms.simps(3)) (simp add: ms.simps(2) split: list.splits)

lemma not_digit_space: "\<not> is_digit CHR '' ''"
  by (simp add: is_digit_def)

lemma ms_blame:
  "ms (blame_rx commit) s [] =
     (if take (length commit) s = commit then
        (case drop (length commit) s of [] \<Rightarrow> []
         | sp # t \<Rightarrow>
            if sp = CHR '' '' then
              (if takeWhile is_digit t = [] then []
               else (case dropWhile is_digit t of [] \<Rightarrow> []
                     | sp' # t' \<Rightarrow>
                        if sp' = CHR '' '' then
                          ms (Grp ''2'' (Plus (Sym is_digit))) t' [(''line'', takeWhile is_digit t)]
                        else []))
            else [])
      else [])"
proof -
  let ?R = "Cat (Sym (\<lambda>c. c = CHR '' '')) (Grp ''2'' (Plus (Sym is_digit)))"
  let ?Y = "Cat (Grp ''line'' (Plus (Sym is_digit))) ?R"
  have R: "ms ?R (x # xs) c = []" if "is_digit x" for x xs c
    using that not_digit_space by (auto simp add: ms_cat_sym)
  have Y: "ms ?Y t c = (if takeWhile is_digit t = [] then []
      else ms ?R (dropWhile is_digit t) ((''line'', takeWhile is_digit t) # c))" for t c
    by (rule ms_run_then) (rule R)
  show ?thesis
    unfolding blame_rx_def by (simp only: ms_cat_lit ms_cat_sym [of _ ?Y] Y) (auto simp add: ms_cat_sym split: list.splits)
qed

lemma take_Suc_append1:
  "take (length w + 1) s = w @ [x] \<longleftrightarrow> take (length w) s = w \<and> (\<exists>t. drop (length w) s = x # t)"
proof
  assume a: "take (length w + 1) s = w @ [x]"
  have "s = (w @ [x]) @ drop (length w + 1) s" using a append_take_drop_id [of "length w + 1" s] by simp
  then obtain r where "s = w @ x # r" by auto
  then show "take (length w) s = w \<and> (\<exists>t. drop (length w) s = x # t)" by simp
next
  assume "take (length w) s = w \<and> (\<exists>t. drop (length w) s = x # t)"
  then obtain t where "take (length w) s = w" "drop (length w) s = x # t" by blast
  then have "s = w @ x # t" using append_take_drop_id [of "length w" s] by simp
  then show "take (length w + 1) s = w @ [x]" by simp
qed

lemma re_match_blame:
  "map_option (\<lambda>caps. map_of caps ''line'') (re_match (blame_rx commit) s)
     = map_option Some (entry_line_field commit s)"
proof (cases "take (length commit) s = commit \<and> (\<exists>t. drop (length commit) s = CHR '' '' # t)")
  case False
  then have "\<not> take (length commit + 1) s = commit @ '' ''"
    using take_Suc_append1 [of commit s "CHR '' ''"] by simp
  then have e: "entry_line_field commit s = None" by (simp add: entry_line_field_def)
  have "ms (blame_rx commit) s [] = []"
    using False by (simp only: ms_blame) (auto split: list.splits)
  then show ?thesis using e by (simp add: re_match_def)
next
  case True
  then obtain t where t: "take (length commit) s = commit" "drop (length commit) s = CHR '' '' # t"
    by blast
  have pre: "take (length commit + 1) s = commit @ '' ''"
    using t take_Suc_append1 [of commit s "CHR '' ''"] by simp
  have "drop 1 (drop (length commit) s) = t" using t(2) by simp
  then have dr: "drop (length commit + 1) s = t" by (simp add: add.commute)
  have m: "ms (blame_rx commit) s [] =
      (if takeWhile is_digit t = [] then []
       else (case dropWhile is_digit t of [] \<Rightarrow> []
             | sp' # t' \<Rightarrow>
                if sp' = CHR '' '' then
                  ms (Grp ''2'' (Plus (Sym is_digit))) t' [(''line'', takeWhile is_digit t)]
                else []))"
    by (simp add: ms_blame t)
  have e: "entry_line_field commit s =
      (case dropWhile is_digit t of
         sp # d # _ \<Rightarrow> if takeWhile is_digit t \<noteq> [] \<and> sp = CHR '' '' \<and> is_digit d
                       then Some (takeWhile is_digit t) else None
       | _ \<Rightarrow> None)"
    using pre dr by (simp add: entry_line_field_def Let_def)
  show ?thesis
  proof (cases "takeWhile is_digit t = []")
    case True
    then show ?thesis by (simp add: m e re_match_def split: list.splits)
  next
    case ne: False
    show ?thesis
    proof (cases "dropWhile is_digit t")
      case Nil
      then show ?thesis by (simp only: m e re_match_def ne if_False list.case option.map)
    next
      case (Cons sp' t')
      show ?thesis
      proof (cases "sp' = CHR '' '' \<and> takeWhile is_digit t' \<noteq> []")
        case True
        then obtain rest where
          "ms (Grp ''2'' (Plus (Sym is_digit))) t' [(''line'', takeWhile is_digit t)]
            = (dropWhile is_digit t', (''2'', takeWhile is_digit t') # [(''line'', takeWhile is_digit t)]) # rest"
          using ms_grp_run_hd by blast
        moreover obtain d r where "t' = d # r" "is_digit d"
          using True by (cases t') (auto split: if_splits)
        ultimately show ?thesis using True Cons
          by (simp add: m e re_match_def ne)
      next
        case False
        then have a: "sp' \<noteq> CHR '' '' \<or> ms (Grp ''2'' (Plus (Sym is_digit))) t' [(''line'', takeWhile is_digit t)] = []"
          using ms_grp_run_empty by blast
        have b: "sp' \<noteq> CHR '' '' \<or> (case t' of [] \<Rightarrow> True | d # _ \<Rightarrow> \<not> is_digit d)"
          using False by (cases t') auto
        show ?thesis using a b Cons
          by (auto simp add: m e re_match_def ne split: list.splits)
      qed
    qed
  qed
qed

lemma re_search_blame:
  "map_option (\<lambda>caps. map_of caps ''line'') (re_search (blame_rx commit) s)
     = map_option Some (first_from (entry_line_field commit) s)"
proof (induction s)
  case Nil
  then show ?case using re_match_blame [of commit "[]"] by simp
next
  case (Cons x xs)
  show ?case
  proof (cases "entry_line_field commit (x # xs)")
    case None
    then have "re_match (blame_rx commit) (x # xs) = None"
      using re_match_blame [of commit "x # xs"] by simp
    then show ?thesis using None Cons.IH by simp
  next
    case (Some ds)
    then obtain caps where "re_match (blame_rx commit) (x # xs) = Some caps" "map_of caps ''line'' = Some ds"
      using re_match_blame [of commit "x # xs"] by auto
    then show ?thesis using Some by simp
  qed
qed

lemma re_find_blame:
  "map_option (\<lambda>caps. map_of caps ''line'') (re_find mp (blame_rx commit) s)
     = map_option Some (line_field mp commit s)"
  by (cases mp) (simp_all add: re_find_def line_field_def re_match_blame re_search_blame)

lemma ms_alt: "ms (Alt r1 r2) s c = ms r1 s c @ ms r2 s c"
  by (rule ms.simps(4))

lemma ms_alts_lit:
  "ws \<noteq> [] \<Longrightarrow>
   ms (alts (map lit ws)) s c
     = map (\<lambda>w. (drop (length w) s, c)) (filter (\<lambda>w. take (length w) s = w) ws)"
proof (induction ws)
  case Nil
  then show ?case by simp
next
  case (Cons w ws)
  show ?case
  proof (cases ws)
    case Nil
    then show ?thesis by (simp add: ms_lit)
  next
    case (Cons v vs)
    then have "alts (map lit (w # ws)) = Alt (lit w) (alts (map lit ws))" by simp
    then show ?thesis using Cons Cons.IH by (simp add: ms_alt ms_lit)
  qed
qed

lemma takeWhile_dot: "10 \<notin> set name \<Longrightarrow> takeWhile dot name = name"
  by (induction name) (auto simp add: dot_def)

lemma ms_filename_hd:
  assumes "name \<noteq> []" "10 \<notin> set name"
  shows "\<exists>rest. ms (Grp ''filename'' (Plus (Sym dot))) name c = ([], (''filename'', name) # c) # rest"
proof -
  have t: "takeWhile dot name = name" using assms(2) by (rule takeWhile_dot)
  have "takeWhile dot name \<noteq> []" unfolding t by (rule assms(1))
  then obtain rest where
    "ms (Grp ''filename'' (Plus (Sym dot))) name c
       = (dropWhile dot name, (''filename'', takeWhile dot name) # c) # rest"
    using ms_grp_run_hd by blast
  moreover have "dropWhile dot name = []" using t by (metis takeWhile_dropWhile_id self_append_conv)
  ultimately show ?thesis using t by simp
qed

lemma modes_length: "m \<in> set (modes t) \<Longrightarrow> length m = 2"
  by (auto simp add: modes_def u_def split: if_splits)

lemma re_search_hit: "re_match r s = Some c \<Longrightarrow> re_search r s = Some c"
  by (cases s) simp_all

lemma re_find_hit: "re_match r s = Some c \<Longrightarrow> re_find mp r s = Some c"
  by (cases mp) (simp_all add: re_find_def re_search_hit)

lemma ms_diff_tree_mode:
  assumes "m = u ''A'' \<or> m = u ''M''"
  shows "ms (Grp ''mode'' (Alt (lit (u ''A'')) (lit (u ''M'')))) (m @ rest) c = [(rest, (''mode'', m) # c)]"
  using assms by (subst ms.simps(6)) (auto simp add: ms_alt ms_lit u_def)

lemma re_find_diff_tree_line:
  assumes "m = u ''A'' \<or> m = u ''M''" "uni_space sp" "name \<noteq> []" "10 \<notin> set name"
  shows "re_find mp diff_tree_rx (m @ sp # name) = Some [(''filename'', name), (''mode'', m)]"
proof -
  obtain rest where r: "ms (Grp ''filename'' (Plus (Sym dot))) name [(''mode'', m)]
      = ([], [(''filename'', name), (''mode'', m)]) # rest"
    using ms_filename_hd [OF assms(3,4)] by blast
  have "ms diff_tree_rx (m @ sp # name) [] = ([], [(''filename'', name), (''mode'', m)]) # rest"
    unfolding diff_tree_rx_def
    by (subst ms.simps(3)) (simp add: ms_diff_tree_mode [OF assms(1)] ms_cat_sym r assms(2))
  then have "re_match diff_tree_rx (m @ sp # name) = Some [(''filename'', name), (''mode'', m)]"
    by (simp add: re_match_def)
  then show ?thesis by (rule re_find_hit)
qed

section \<open>Lemmas on the blame pattern\<close>

lemma entry_line_field_digits:
  "entry_line_field commit s = Some ds \<Longrightarrow> ds \<noteq> [] \<and> list_all is_digit ds"
  by (auto simp add: entry_line_field_def Let_def list_all_iff split: if_splits list.splits
      dest: set_takeWhileD)

lemma first_from_digits:
  "first_from (entry_line_field commit) s = Some ds \<Longrightarrow> ds \<noteq> [] \<and> list_all is_digit ds"
proof (induction s)
  case Nil
  then show ?case using entry_line_field_digits [of commit "[]" ds] by simp
next
  case (Cons x xs)
  then show ?case
    using entry_line_field_digits [of commit "x # xs" ds] by (simp split: option.splits)
qed

lemma line_field_digits:
  "line_field mp commit s = Some ds \<Longrightarrow> ds \<noteq> [] \<and> list_all is_digit ds"
  using entry_line_field_digits first_from_digits by (cases mp) (simp_all add: line_field_def)

lemma py_int_field:
  assumes "ds \<noteq> []" "list_all is_digit ds"
  shows "py_int (Bare (Some ds)) = (if length ds \<le> 4300 then Inr (dec ds) else Inl ValueError)"
  using assms by (simp add: py_int_def)

lemma map_int_blame:
  "map_int (filter_lines mp lines (blame_rx commit) [''line''])
     = (if list_all (\<lambda>ds. length ds \<le> 4300) (List.map_filter (line_field mp commit) lines)
        then Inr (map dec (List.map_filter (line_field mp commit) lines))
        else Inl ValueError)"
proof (induction lines)
  case Nil
  then show ?case by (simp add: filter_lines_def List.map_filter_simps)
next
  case (Cons l ls)
  let ?f = "\<lambda>line. map_option (yield [''line'']) (re_find mp (blame_rx commit) line)"
  have IH: "map_int (List.map_filter ?f ls)
      = (if list_all (\<lambda>ds. length ds \<le> 4300) (List.map_filter (line_field mp commit) ls)
         then Inr (map dec (List.map_filter (line_field mp commit) ls))
         else Inl ValueError)"
    using Cons.IH by (simp add: filter_lines_def)
  show ?case
  proof (cases "line_field mp commit l")
    case None
    then have "re_find mp (blame_rx commit) l = None"
      using re_find_blame [of mp commit l] by simp
    then show ?thesis using None IH by (simp add: filter_lines_def List.map_filter_simps)
  next
    case (Some ds)
    then obtain caps where c: "re_find mp (blame_rx commit) l = Some caps" "map_of caps ''line'' = Some ds"
      using re_find_blame [of mp commit l] by auto
    have d: "ds \<noteq> [] \<and> list_all is_digit ds" using Some by (rule line_field_digits)
    have y: "yield [''line''] caps = Bare (Some ds)" using c(2) by (simp add: yield_def)
    have p: "py_int (Bare (Some ds)) = (if length ds \<le> 4300 then Inr (dec ds) else Inl ValueError)"
      using d by (simp add: py_int_field)
    have "map_int (List.map_filter ?f (l # ls))
        = (case py_int (Bare (Some ds)) of Inl e \<Rightarrow> Inl e
           | Inr n \<Rightarrow> (case map_int (List.map_filter ?f ls) of Inl e \<Rightarrow> Inl e | Inr ns \<Rightarrow> Inr (n # ns)))"
      using c(1) y by (simp add: List.map_filter_simps)
    then show ?thesis
      unfolding filter_lines_def by (simp only: p IH) (simp add: List.map_filter_simps Some)
  qed
qed

lemma modified_lines_blame:
  assumes "status \<in> {u ''M '', u '' M'', u ''MM''}" "git (blame_cmd filename) = Exited0 out"
  shows "modified_lines mp git filename (Some status) commit =
     ([blame_cmd filename],
      if list_all (\<lambda>ds. length ds \<le> 4300)
           (blame_fields mp (encode (case commit of None \<Rightarrow> replicate 40 H0 | Some c \<Rightarrow> c)) out)
      then Inr (Some (map dec
           (blame_fields mp (encode (case commit of None \<Rightarrow> replicate 40 H0 | Some c \<Rightarrow> c)) out)))
      else Inl ValueError)"
  using assms
  by (auto simp add: modified_lines_def io_bind_def check_output_def map_int_blame io_of_def
      io_return_def Let_def blame_fields_def)


section \<open>Lemmas on the loop over the commits of a pull request\<close>

lemma pr_loop_concat:
  assumes "list_all2 (\<lambda>c r. snd (modified_lines mp git filename extra_data (Some c)) = Inr r)
             commits results"
  shows "snd (pr_loop mp git filename extra_data acc commits)
     = Inr (acc @ concat (map the (filter (\<lambda>r. r \<noteq> None \<and> r \<noteq> Some []) results)))"
  using assms
proof (induction commits results arbitrary: acc rule: list_all2_induct)
  case Nil
  then show ?case by (simp add: io_return_def)
next
  case (Cons c cs r rs)
  obtain t where t: "modified_lines mp git filename extra_data (Some c) = (t, Inr r)"
    using Cons.hyps(1) by (cases "modified_lines mp git filename extra_data (Some c)") simp
  let ?acc = "case r of Some (x # xs) \<Rightarrow> acc @ (x # xs) | _ \<Rightarrow> acc"
  have "snd (pr_loop mp git filename extra_data acc (c # cs))
      = snd (pr_loop mp git filename extra_data ?acc cs)"
    by (simp add: t io_bind_def split: prod.splits)
  also have "\<dots> = Inr (?acc @ concat (map the (filter (\<lambda>r. r \<noteq> None \<and> r \<noteq> Some []) rs)))"
    by (rule Cons.IH)
  finally show ?case by (simp split: option.splits list.splits)
qed

lemma pr_loop_added:
  "status \<notin> {u ''M '', u '' M'', u ''MM''} \<Longrightarrow>
   pr_loop mp git filename (Some status) acc commits = ([], Inr acc)"
  by (induction commits arbitrary: acc)
     (simp_all add: modified_lines_def io_return_def io_bind_def)


lemma a40: "replicate 40 (CHR ''a'') = ''aaaaaaaaaaaaaaaaaaaaaaaaaaaaaaaaaaaaaaaa''"
  by (simp add: numeral_eq_Suc)

lemma b40: "replicate 40 (CHR ''b'') = ''bbbbbbbbbbbbbbbbbbbbbbbbbbbbbbbbbbbbbbbb''"
  by (simp add: numeral_eq_Suc)

lemma two_commits_a:
  "modified_lines mp (\<lambda>args. Exited0 blame_two_commits) (u ''/repo/foo.py'') (Some (u ''M ''))
     (Some (replicate 40 Ha)) = ([blame_cmd (u ''/repo/foo.py'')], Inr (Some [5]))"
proof -
  have "blame_fields mp (replicate 40 (CHR ''a'')) blame_two_commits = [''5'']"
    by (cases mp) (simp_all add: a40 blame_fields_def blame_two_commits_def List.map_filter_simps
        line_field_def entry_line_field_def is_digit_def)
  then show ?thesis
    using modified_lines_blame [of "u ''M ''" "\<lambda>args. Exited0 blame_two_commits" "u ''/repo/foo.py''"
        blame_two_commits mp "Some (replicate 40 Ha)"]
    by (simp add: encode_def dec_def)
qed

lemma two_commits_b:
  "modified_lines mp (\<lambda>args. Exited0 blame_two_commits) (u ''/repo/foo.py'') (Some (u ''M ''))
     (Some (replicate 40 Hb)) = ([blame_cmd (u ''/repo/foo.py'')], Inr (Some [5]))"
proof -
  have "blame_fields mp (replicate 40 (CHR ''b'')) blame_two_commits = [''5'']"
    by (cases mp) (simp_all add: b40 blame_fields_def blame_two_commits_def List.map_filter_simps
        line_field_def entry_line_field_def is_digit_def)
  then show ?thesis
    using modified_lines_blame [of "u ''M ''" "\<lambda>args. Exited0 blame_two_commits" "u ''/repo/foo.py''"
        blame_two_commits mp "Some (replicate 40 Hb)"]
    by (simp add: encode_def dec_def)
qed

section \<open>Lemmas on the file patterns and the dictionary\<close>

lemma split_on_no_sep: "l \<in> set (split_on sep xs) \<Longrightarrow> sep \<notin> set l"
proof (induction xs arbitrary: l)
  case Nil
  then show ?case by simp
next
  case (Cons x xs)
  then show ?case by (auto split: if_splits list.splits)
qed

lemma remove_quotes_wrapped: "remove_filename_quotes ([34] @ name @ [34]) = name"
  by (simp add: remove_filename_quotes_def butlast_append)

lemma path_join_suffix: "\<exists>p. path_join root name = p @ name"
  by (simp add: path_join_def)

lemma modified_files_status:
  assumes "isabs root" "commits = None \<or> commits = Some []"
    "git status_cmd = Exited0 out" "decode_utf8 out = Some text"
  shows "modified_files mp git root tracked_only commits =
     ([status_cmd],
      dict_of root [] Map.empty
        (filter_lines mp (split_on 10 text) (status_rx tracked_only) [''filename'', ''mode'']))"
  using assms
  by (auto simp add: modified_files_def io_bind_def check_output_def io_of_def Let_def)

lemma decode_quoted_status: "decode_utf8 quoted_status = Some (u ''A  \"weird name.txt\"'' @ [10])"
  by (simp add: decode_utf8_def quoted_status_def u_def)

lemma with_commit_trace: "fst (modified_files_with_commit mp git root commit) = [diff_tree_cmd commit]"
  by (simp add: modified_files_with_commit_def io_bind_def check_output_def io_raise_def io_of_def
      Let_def split: proc_result.splits option.splits prod.splits sum.splits)

lemma update_all_merge:
  assumes "list_all2 (\<lambda>c m. snd (modified_files_with_commit mp git root c) = Inr m) commits maps"
  shows "update_all mp git root acc commits
     = (map diff_tree_cmd commits, Inr (foldl (++) acc maps))"
  using assms
proof (induction commits maps arbitrary: acc rule: list_all2_induct)
  case Nil
  then show ?case by (simp add: io_return_def)
next
  case (Cons c cs m ms)
  have "modified_files_with_commit mp git root c = ([diff_tree_cmd c], Inr m)"
    using Cons.hyps(1) with_commit_trace [of mp git root c]
    by (cases "modified_files_with_commit mp git root c") simp
  then show ?case using Cons.IH [of "acc ++ m"] by (simp add: io_bind_def)
qed

lemma status_not_diff_tree: "status_cmd \<noteq> diff_tree_cmd commit"
  by (simp add: status_cmd_def diff_tree_cmd_def)

lemma foldl_last_writer:
  assumes "i < length maps" "(maps ! i) k = Some v"
    "\<forall>j. i < j \<and> j < length maps \<longrightarrow> (maps ! j) k = None"
  shows "foldl (++) acc maps k = Some v"
  using assms
proof (induction maps arbitrary: i rule: rev_induct)
  case Nil
  then show ?case by simp
next
  case (snoc m ms)
  show ?case
  proof (cases "i = length ms")
    case True
    then have "m k = Some v" using snoc.prems(2) by simp
    then show ?thesis by (simp add: map_add_Some_iff)
  next
    case False
    then have i: "i < length ms" using snoc.prems(1) by simp
    have "m k = None" using snoc.prems(3) i by (metis length_append_singleton lessI nth_append_length)
    moreover have "foldl (++) acc ms k = Some v"
    proof (rule snoc.IH [OF i])
      show "(ms ! i) k = Some v" using snoc.prems(2) i by (simp add: nth_append)
      show "\<forall>j. i < j \<and> j < length ms \<longrightarrow> (ms ! j) k = None"
        using snoc.prems(3) by (metis length_append_singleton less_Suc_eq nth_append)
    qed
    ultimately show ?thesis by (simp add: map_add_Some_iff)
  qed
qed

lemma re_find_diff_tree_Nil: "re_find mp diff_tree_rx [] = None"
proof -
  have "ms diff_tree_rx [] [] = []"
    unfolding diff_tree_rx_def
    by (subst ms.simps(3), subst ms.simps(6)) (simp add: ms_alt ms_lit u_def)
  then show ?thesis by (cases mp) (simp_all add: re_find_def re_match_def)
qed

lemma with_commit_one_line:
  assumes "git (diff_tree_cmd commit) = Exited0 out"
    "decode_utf8 out = Some (m @ sp # name @ [10])"
    "m = u ''A'' \<or> m = u ''M''" "uni_space sp" "name \<noteq> []" "10 \<notin> set name" "sp \<noteq> 10"
  shows "snd (modified_files_with_commit mp git root commit)
     = Inr [path_join root (remove_filename_quotes name) \<mapsto> m @ u '' '']"
proof -
  have m10: "10 \<notin> set m" using assms(3) by (auto simp add: u_def)
  have sp10: "sp \<noteq> 10" by (rule assms(7))
  have s: "split_on 10 (xs @ [10]) = [xs, []]" if "10 \<notin> set xs" for xs :: str
    using that by (induction xs) auto
  have "split_on 10 (m @ sp # name @ [10]) = [m @ sp # name, []]"
    using s [of "m @ sp # name"] m10 sp10 assms(6) by simp
  moreover have "re_find mp diff_tree_rx (m @ sp # name) = Some [(''filename'', name), (''mode'', m)]"
    using assms(3-6) by (rule re_find_diff_tree_line)
  ultimately have "filter_lines mp (split_on 10 (m @ sp # name @ [10])) diff_tree_rx
      [''filename'', ''mode''] = [Tuple [Some name, Some m]]"
    by (simp add: filter_lines_def List.map_filter_simps re_find_diff_tree_Nil yield_def)
  then show ?thesis
    using assms(1,2)
    by (simp add: modified_files_with_commit_def io_bind_def check_output_def io_of_def Let_def
        entry_def unpack2_def)
qed

section \<open>Lemmas on the status pattern\<close>

lemma filter_eq_distinct:
  "distinct xs \<Longrightarrow> filter (\<lambda>w. x = w) xs = (if x \<in> set xs then [x] else [])"
  by (induction xs) auto

lemma modes_distinct: "distinct (modes t)"
  by (simp add: modes_def u_def)

lemma modes_filter_take:
  "filter (\<lambda>w. take (length w) s = w) (modes t)
     = (if take 2 s \<in> set (modes t) then [take 2 s] else [])"
proof -
  have "filter (\<lambda>w. take (length w) s = w) (modes t) = filter (\<lambda>w. take 2 s = w) (modes t)"
    by (rule filter_cong) (simp_all add: modes_length)
  then show ?thesis using filter_eq_distinct [OF modes_distinct, of "take 2 s" t] by simp
qed

lemma ms_status_mode:
  "ms (Grp ''mode'' (alts (map lit (modes t)))) s c
     = (if take 2 s \<in> set (modes t) then [(drop 2 s, (''mode'', take 2 s) # c)] else [])"
proof -
  have ne: "modes t \<noteq> []" by (simp add: modes_def)
  have a: "ms (alts (map lit (modes t))) s c
      = (if take 2 s \<in> set (modes t) then [(drop 2 s, c)] else [])"
  proof (cases "take 2 s \<in> set (modes t)")
    case True
    then have "length (take 2 s) = 2" by (rule modes_length)
    then show ?thesis using True by (simp add: ms_alts_lit [OF ne] modes_filter_take)
  next
    case False
    then show ?thesis by (simp add: ms_alts_lit [OF ne] modes_filter_take)
  qed
  have b: "take (length s - (length s - 2)) s = take 2 s"
    by (cases "2 \<le> length s") simp_all
  show ?thesis by (subst ms.simps(6)) (simp add: a b)
qed

lemma re_match_status:
  "re_match (status_rx t) s
     = map_option (\<lambda>e. [(''filename'', fst e), (''mode'', snd e)]) (status_entry_at t s)"
proof (cases "take 2 s \<in> set (modes t)")
  case False
  then have "ms (status_rx t) s [] = []"
    unfolding status_rx_def by (subst ms.simps(3)) (simp add: ms_status_mode)
  then show ?thesis using False by (simp add: re_match_def status_entry_at_def)
next
  case True
  have m: "ms (status_rx t) s [] =
      (case drop 2 s of [] \<Rightarrow> []
       | sp # rest \<Rightarrow>
           if sp = 32 then ms (Grp ''filename'' (Plus (Sym dot))) rest [(''mode'', take 2 s)]
           else [])"
    unfolding status_rx_def using True
    by (subst ms.simps(3)) (auto simp add: ms_status_mode ms_cat_sym split: list.splits)
  show ?thesis
  proof (cases "drop 2 s")
    case Nil
    then show ?thesis using True by (simp add: m re_match_def status_entry_at_def)
  next
    case (Cons sp rest)
    show ?thesis
    proof (cases "sp = 32 \<and> takeWhile dot rest \<noteq> []")
      case False
      then have "sp \<noteq> 32 \<or> ms (Grp ''filename'' (Plus (Sym dot))) rest [(''mode'', take 2 s)] = []"
        using ms_grp_run_empty by blast
      then show ?thesis using False True Cons
        by (auto simp add: m re_match_def status_entry_at_def)
    next
      case yes: True
      then obtain more where
        "ms (Grp ''filename'' (Plus (Sym dot))) rest [(''mode'', take 2 s)]
          = (dropWhile dot rest, (''filename'', takeWhile dot rest) # [(''mode'', take 2 s)]) # more"
        using ms_grp_run_hd by blast
      then show ?thesis using yes True Cons
        by (simp add: m re_match_def status_entry_at_def)
    qed
  qed
qed

lemma re_search_first_from:
  assumes "\<And>s. re_match r s = map_option h (f s)"
  shows "re_search r s = map_option h (first_from f s)"
proof (induction s)
  case Nil
  then show ?case by (simp add: assms)
next
  case (Cons x xs)
  then show ?case by (cases "f (x # xs)") (simp_all add: assms)
qed

lemma re_find_status:
  "re_find mp (status_rx t) s
     = map_option (\<lambda>e. [(''filename'', fst e), (''mode'', snd e)]) (status_entry mp t s)"
  by (cases mp)
     (simp_all add: re_find_def status_entry_def re_match_status
        re_search_first_from [of "status_rx t" _ "status_entry_at t"])

lemma map_filter_map_option:
  "List.map_filter (\<lambda>x. map_option g (f x)) xs = map g (List.map_filter f xs)"
  by (induction xs) (auto simp add: List.map_filter_simps split: option.splits)

lemma filter_lines_status:
  "filter_lines mp lines (status_rx t) [''filename'', ''mode'']
     = map (\<lambda>e. Tuple [Some (fst e), Some (snd e)]) (List.map_filter (status_entry mp t) lines)"
proof -
  have "(\<lambda>line. map_option (yield [''filename'', ''mode'']) (re_find mp (status_rx t) line))
      = (\<lambda>line. map_option (\<lambda>e. Tuple [Some (fst e), Some (snd e)]) (status_entry mp t line))"
    by (rule ext) (simp add: re_find_status option.map_comp comp_def yield_def)
  then show ?thesis by (simp add: filter_lines_def map_filter_map_option)
qed

lemma dict_of_entries:
  "dict_of root suffix d (map (\<lambda>e. Tuple [Some (fst e), Some (snd e)]) es)
     = Inr (d ++ map_of (rev (map (\<lambda>e. (path_join root (remove_filename_quotes (fst e)), snd e @ suffix)) es)))"
proof (induction es arbitrary: d)
  case Nil
  then show ?case by simp
next
  case (Cons e es)
  let ?w = "\<lambda>e. Tuple [Some (fst e), Some (snd e)]"
  let ?g = "\<lambda>e. (path_join root (remove_filename_quotes (fst e)), snd e @ suffix)"
  let ?k = "path_join root (remove_filename_quotes (fst e))"
  let ?v = "snd e @ suffix"
  have eq: "d(?k \<mapsto> ?v) ++ map_of (rev (map ?g es)) = d ++ map_of (rev (map ?g (e # es)))"
    by (rule ext) (simp add: map_add_def split: option.splits)
  have "dict_of root suffix d (map ?w (e # es)) = dict_of root suffix (d(?k \<mapsto> ?v)) (map ?w es)"
    by (simp add: entry_def unpack2_def)
  also have "\<dots> = Inr (d(?k \<mapsto> ?v) ++ map_of (rev (map ?g es)))"
    by (rule Cons.IH)
  finally show ?case by (simp only: eq)
qed

lemma modified_files_status_entries:
  assumes "isabs root" "commits = None \<or> commits = Some []"
    "git status_cmd = Exited0 out" "decode_utf8 out = Some text'"
  shows "modified_files mp git root tracked_only commits =
     ([status_cmd], Inr (map_of (rev (map (status_pair root) (status_entries mp tracked_only text')))))"
proof -
  have "(\<lambda>e. (path_join root (remove_filename_quotes (fst e)), snd e @ [])) = status_pair root"
    by (rule ext) (simp add: status_pair_def)
  then show ?thesis
    using modified_files_status [of root commits git out text' mp tracked_only] assms
    by (simp add: filter_lines_status dict_of_entries status_entries_def)
qed

lemma first_from_hit: "f s = Some y \<Longrightarrow> first_from f s = Some y"
  by (cases s) simp_all

lemma status_entry_line:
  assumes "mode \<in> set (modes t)" "name \<noteq> []" "10 \<notin> set name"
  shows "status_entry mp t (mode @ 32 # name) = Some (name, mode)"
proof -
  have len: "length mode = 2" using assms(1) by (rule modes_length)
  have tw: "takeWhile dot name = name" using assms(3) by (rule takeWhile_dot)
  have t2: "take 2 (mode @ 32 # name) = mode" and d2: "drop 2 (mode @ 32 # name) = 32 # name"
    using len by simp_all
  have "status_entry_at t (mode @ 32 # name) = Some (name, mode)"
    by (simp only: status_entry_at_def t2 d2 assms(1) if_True list.case tw) (simp add: assms(2))
  then show ?thesis by (cases mp) (simp_all add: status_entry_def first_from_hit)
qed

lemma set_map_filter_iff: "y \<in> set (List.map_filter f xs) \<longleftrightarrow> (\<exists>x \<in> set xs. f x = Some y)"
  by (auto simp add: List.map_filter_def) force

lemma status_pair_snd: "snd (status_pair root e) = snd e"
  by (simp add: status_pair_def)

lemma map_of_agree:
  assumes "k \<in> fst ` set ps" "\<forall>p \<in> set ps. fst p = k \<longrightarrow> snd p = v"
  shows "map_of ps k = Some v"
proof -
  obtain v' where v': "map_of ps k = Some v'"
    using assms(1) by (metis domD dom_map_of_conv_image_fst)
  then have "(k, v') \<in> set ps" by (rule map_of_SomeD)
  then have "v' = v" using assms(2) by fastforce
  then show ?thesis using v' by simp
qed

lemma status_entry_Nil: "status_entry mp t [] = None"
  by (cases mp) (simp_all add: status_entry_def status_entry_at_def modes_def u_def)

section \<open>Properties\<close>

subsection \<open>Modified lines: the two early returns\<close>

text \<open>
  C3. For every file name and every commit, \<^verbatim>\<open>modified_lines\<close> called with the status
  \<^verbatim>\<open>None\<close> (the file was not modified) returns the empty list, not \<^verbatim>\<open>None\<close> and not a
  list with an element, and runs no command.
\<close>

theorem modified_lines_unmodified:
  "modified_lines mp git filename None commit = ([], Inr (Some []))"
  by (simp add: modified_lines_def io_return_def)

text \<open>
  C2. For every file name and every commit, \<^verbatim>\<open>modified_lines\<close> called with a status that
  is present and is none of \<^verbatim>\<open>'M '\<close>, \<^verbatim>\<open>' M'\<close>, \<^verbatim>\<open>'MM'\<close> returns \<^verbatim>\<open>None\<close>, which is not the
  empty list, and runs no command.
\<close>

theorem modified_lines_added:
  "status \<notin> {u ''M '', u '' M'', u ''MM''} \<Longrightarrow>
   modified_lines mp git filename (Some status) commit = ([], Inr None)"
  by (simp add: modified_lines_def io_return_def)

theorem modified_lines_added_witness:
  "u ''A '' \<notin> {u ''M '', u '' M'', u ''MM''} \<and>
   modified_lines Anywhere (\<lambda>args. NotFound) (u ''/repo/foo.py'') (Some (u ''A '')) (Some [Ha, H1])
     = ([], Inr None)"
proof -
  have h: "u ''A '' \<notin> {u ''M '', u '' M'', u ''MM''}" by (simp add: u_def)
  show ?thesis using h modified_lines_added [OF h] by simp
qed

subsection \<open>Modified files: the precondition\<close>

text \<open>
  C7. For every root that is not absolute, whatever the other arguments,
  \<^verbatim>\<open>modified_files\<close> raises \<^verbatim>\<open>AssertionError\<close> with a message that ends in the root it was
  given; no command has been run and no map is returned.
\<close>

theorem modified_files_relative_root:
  "\<not> isabs root \<Longrightarrow>
   modified_files mp git root tracked_only commits
     = ([], Inl (AssertionError (u ''Root has to be absolute, got: '' @ root)))"
  by (simp add: modified_files_def io_raise_def)

theorem modified_files_relative_root_witness:
  "\<not> isabs (u ''relative/path'') \<and>
   modified_files AtStart (\<lambda>args. Exited0 []) (u ''relative/path'') False None
     = ([], Inl (AssertionError (u ''Root has to be absolute, got: relative/path'')))"
proof -
  have h: "\<not> isabs (u ''relative/path'')" by (simp add: isabs_def u_def)
  show ?thesis
    using h modified_files_relative_root [OF h, of AtStart "\<lambda>args. Exited0 []" False None]
    by (simp add: u_def)
qed

subsection \<open>Repository locator\<close>

text \<open>
  C5, evaluated on the code. When HEAD equals the remote main branch the log query
  exits with status zero and prints nothing. \<^verbatim>\<open>commits_head_to_main\<close> then returns the
  list whose one element is the empty string: \<^verbatim>\<open>''.split('\n')\<close> is \<^verbatim>\<open>['']\<close>. The claim
  says it returns the empty list.
\<close>

theorem commits_head_to_main_no_commits:
  "commits_head_to_main (\<lambda>args. Exited0 []) master = ([log_cmd master], Inr [ [] ])"
  by (simp add: commits_head_to_main_def except_called_process_error_def stripped_output_def
      io_bind_def check_output_def strip_def decode_utf8_def io_return_def)

text \<open>
  C6 as stated fails: when the executable is missing, \<^verbatim>\<open>check_output\<close> raises
  \<^verbatim>\<open>FileNotFoundError\<close>, which the handlers of \<^verbatim>\<open>repository_root\<close> and \<^verbatim>\<open>last_commit\<close> do
  not catch.
\<close>

theorem locator_missing_executable:
  "snd (repository_root (\<lambda>args. NotFound)) = Inl FileNotFoundError \<and>
   snd (last_commit (\<lambda>args. NotFound)) = Inl FileNotFoundError"
  by (simp add: repository_root_def last_commit_def except_called_process_error_def
      stripped_output_def io_bind_def check_output_def)

text \<open>
  C6, amended. When the command exits with a non-zero status, \<^verbatim>\<open>repository_root\<close> and
  \<^verbatim>\<open>last_commit\<close> return \<^verbatim>\<open>None\<close> and raise nothing.
\<close>

theorem locator_nonzero_exit:
  "(git rev_parse_toplevel = ExitedNonzero \<longrightarrow>
      repository_root git = ([rev_parse_toplevel], Inr None)) \<and>
   (git rev_parse_head = ExitedNonzero \<longrightarrow>
      last_commit git = ([rev_parse_head], Inr None))"
  by (simp add: repository_root_def last_commit_def except_called_process_error_def
      stripped_output_def io_bind_def check_output_def)

theorem locator_nonzero_exit_witness:
  "repository_root (\<lambda>args. ExitedNonzero) = ([rev_parse_toplevel], Inr None) \<and>
   last_commit (\<lambda>args. ExitedNonzero) = ([rev_parse_head], Inr None)"
  using locator_nonzero_exit [of "\<lambda>args. ExitedNonzero"] by simp

subsection \<open>Modified lines: parsing blame\<close>




subsection \<open>Modified lines of a pull request\<close>

text \<open>
  C9. For every file name, status and list of commits: when the calls of
  \<^verbatim>\<open>modified_lines\<close> for the commits return, \<^verbatim>\<open>modified_lines_for_pr\<close> returns the
  concatenation, in the order of the commits, of those results that are neither \<^verbatim>\<open>None\<close>
  nor empty; nothing is sorted and nothing is removed. Two commits that both report
  line 5 give \<^verbatim>\<open>[5, 5]\<close> (the witness).
\<close>

theorem modified_lines_for_pr_concat:
  assumes "list_all2 (\<lambda>c r. snd (modified_lines mp git filename extra_data (Some c)) = Inr r)
             commits results"
  shows "snd (modified_lines_for_pr mp git filename extra_data commits)
     = Inr (concat (map the (filter (\<lambda>r. r \<noteq> None \<and> r \<noteq> Some []) results)))"
  using pr_loop_concat [OF assms, of "[]"] by (simp add: modified_lines_for_pr_def)

theorem modified_lines_for_pr_concat_witness:
  "\<forall>mp. snd (modified_lines_for_pr mp (\<lambda>args. Exited0 blame_two_commits) (u ''/repo/foo.py'')
       (Some (u ''M '')) [replicate 40 Ha, replicate 40 Hb]) = Inr [5, 5]"
proof
  fix mp
  have h: "list_all2
      (\<lambda>c r. snd (modified_lines mp (\<lambda>args. Exited0 blame_two_commits) (u ''/repo/foo.py'')
                 (Some (u ''M '')) (Some c)) = Inr r)
      [replicate 40 Ha, replicate 40 Hb] [Some [5], Some [5]]"
    by (simp add: two_commits_a two_commits_b)
  show "snd (modified_lines_for_pr mp (\<lambda>args. Exited0 blame_two_commits) (u ''/repo/foo.py'')
       (Some (u ''M '')) [replicate 40 Ha, replicate 40 Hb]) = Inr [5, 5]"
    using modified_lines_for_pr_concat [OF h] by simp
qed

text \<open>
  C10. \<^verbatim>\<open>modified_lines_for_pr\<close> returns a list, never \<^verbatim>\<open>None\<close> (the type of its result has
  no such value). When the status marks the file as new, every call of \<^verbatim>\<open>modified_lines\<close>
  returns \<^verbatim>\<open>None\<close> and the aggregate is the empty list, for every list of commits: the
  caller of the aggregator cannot tell the two apart.
\<close>

theorem modified_lines_for_pr_added:
  assumes "status \<notin> {u ''M '', u '' M'', u ''MM''}"
  shows "modified_lines mp git filename (Some status) (Some commit) = ([], Inr None) \<and>
     modified_lines_for_pr mp git filename (Some status) commits = ([], Inr [])"
  using assms pr_loop_added [OF assms]
  by (simp add: modified_lines_for_pr_def modified_lines_def io_return_def)

theorem modified_lines_for_pr_added_witness:
  "u ''A '' \<notin> {u ''M '', u '' M'', u ''MM''} \<and>
   modified_lines_for_pr Anywhere (\<lambda>args. Exited0 blame_two_commits) (u ''/repo/foo.py'')
     (Some (u ''A '')) [replicate 40 Ha, replicate 40 Hb] = ([], Inr [])"
proof -
  have h: "u ''A '' \<notin> {u ''M '', u '' M'', u ''MM''}" by (simp add: u_def)
  show ?thesis using h modified_lines_for_pr_added [OF h] by simp
qed

subsection \<open>Modified files: a list of commits\<close>

text \<open>
  C4. For every absolute root and every list of commits that is not empty: when the
  query for each commit returns its map, \<^verbatim>\<open>modified_files\<close> returns these maps merged in
  the order of the commits, and for a path the status of the last commit that has it.
  The commands run are the diff-tree queries, one for each commit in order; the status
  query of the working tree is not among them. With a first commit that added \<^verbatim>\<open>F.py\<close>
  and a second that modified it the path has the status \<^verbatim>\<open>'M '\<close> (the witness).
\<close>

theorem modified_files_commits:
  assumes "isabs root" "commits \<noteq> []"
    "list_all2 (\<lambda>c m. snd (modified_files_with_commit mp git root c) = Inr m) commits maps"
  shows "modified_files mp git root tracked_only (Some commits)
       = (map diff_tree_cmd commits, Inr (foldl (++) Map.empty maps)) \<and>
     status_cmd \<notin> set (map diff_tree_cmd commits) \<and>
     (\<forall>i k v. i < length maps \<and> (maps ! i) k = Some v
        \<and> (\<forall>j. i < j \<and> j < length maps \<longrightarrow> (maps ! j) k = None)
        \<longrightarrow> foldl (++) Map.empty maps k = Some v)"
proof -
  obtain c cs where cs: "commits = c # cs" using assms(2) by (cases commits) auto
  have "modified_files mp git root tracked_only (Some commits)
      = update_all mp git root Map.empty commits"
    using assms(1) cs by (simp add: modified_files_def)
  then have a: "modified_files mp git root tracked_only (Some commits)
      = (map diff_tree_cmd commits, Inr (foldl (++) Map.empty maps))"
    using update_all_merge [OF assms(3), of Map.empty] by simp
  have b: "status_cmd \<notin> set (map diff_tree_cmd commits)" using status_not_diff_tree by auto
  show ?thesis using a b foldl_last_writer [of _ maps] by blast
qed

theorem modified_files_commits_witness:
  "\<forall>mp. \<exists>d. modified_files mp two_commit_tool (u ''/repo'') False (Some [first_commit, second_commit])
       = ([diff_tree_cmd first_commit, diff_tree_cmd second_commit], Inr d)
     \<and> d (u ''/repo/F.py'') = Some (u ''M '')"
proof
  fix mp
  let ?k = "u ''/repo/F.py''"
  have ne: "diff_tree_cmd second_commit \<noteq> diff_tree_cmd first_commit"
    by (simp add: diff_tree_cmd_def first_commit_def second_commit_def u_def)
  have k: "path_join (u ''/repo'') (remove_filename_quotes (u ''F.py'')) = ?k"
    by (simp add: path_join_def isabs_def remove_filename_quotes_def u_def)
  have d: "decode_utf8 (x @ [CHR 0x09] @ ''F.py'' @ [CHR 0x0A]) = Some (u x @ 9 # u ''F.py'' @ [10])"
    if "x = ''A'' \<or> x = ''M''" for x
    using that by (auto simp add: decode_utf8_def u_def)
  have sp: "uni_space 9" "(9::nat) \<noteq> 10" by (simp_all add: uni_space_def)
  have n: "u ''F.py'' \<noteq> []" "10 \<notin> set (u ''F.py'')" by (simp_all add: u_def)
  have m1: "snd (modified_files_with_commit mp two_commit_tool (u ''/repo'') first_commit)
      = Inr [?k \<mapsto> u ''A'' @ u '' '']"
    using with_commit_one_line [of two_commit_tool first_commit _ "u ''A''" 9 "u ''F.py''" mp "u ''/repo''"]
      d [of "''A''"] sp n
    by (simp add: two_commit_tool_def k)
  have m2: "snd (modified_files_with_commit mp two_commit_tool (u ''/repo'') second_commit)
      = Inr [?k \<mapsto> u ''M'' @ u '' '']"
    using with_commit_one_line [of two_commit_tool second_commit _ "u ''M''" 9 "u ''F.py''" mp "u ''/repo''"]
      d [of "''M''"] sp n ne
    by (simp add: two_commit_tool_def k)
  have h1: "isabs (u ''/repo'')" by (simp add: isabs_def u_def)
  have h2: "[first_commit, second_commit] \<noteq> []" by simp
  have h3: "list_all2 (\<lambda>c m. snd (modified_files_with_commit mp two_commit_tool (u ''/repo'') c) = Inr m)
      [first_commit, second_commit] [ [?k \<mapsto> u ''A'' @ u '' ''], [?k \<mapsto> u ''M'' @ u '' '']]"
    using m1 m2 by simp
  show "\<exists>d. modified_files mp two_commit_tool (u ''/repo'') False (Some [first_commit, second_commit])
       = ([diff_tree_cmd first_commit, diff_tree_cmd second_commit], Inr d)
     \<and> d ?k = Some (u ''M '')"
    using modified_files_commits [OF h1 h2 h3, of False] by (simp add: u_def)
qed

subsection \<open>Modified files: quoted names\<close>

text \<open>
  C8. Take the status query of \<^verbatim>\<open>modified_files\<close> (no commits, an absolute root, a query
  that succeeds with decodable output). The map it returns is built from the entries of
  the status lines and from nothing else: the key of an entry is the root joined with
  the file name after \<^verbatim>\<open>_remove_filename_quotes\<close>, its value is the code, and a later line
  replaces an earlier one with the same key. For every line that consists of a code, a
  space and a file name wrapped in double quotes, the entry has the quoted name, and its
  key is the root joined with the name without its first and its last character, the two
  quotes: the characters between them are the end of the key, unchanged. That key is in
  the map; its value is the code of the line when no line with another code gives the
  same key; and a path that no line gives is not in the map. The line
  \<^verbatim>\<open>A  "weird name.txt"\<close> alone gives the key that ends in \<^verbatim>\<open>weird name.txt\<close> the value
  \<^verbatim>\<open>'A '\<close>, and the path with the quotes is no key (the witness).
\<close>

theorem modified_files_strips_quotes:
  assumes "isabs root" "commits = None \<or> commits = Some []"
    "git status_cmd = Exited0 out" "decode_utf8 out = Some text'"
    "mode \<in> set (modes tracked_only)"
    "mode @ [32, 34] @ name @ [34] \<in> set (split_on 10 text')"
  shows "\<exists>d. modified_files mp git root tracked_only commits = ([status_cmd], Inr d)
     \<and> d = map_of (rev (map (status_pair root) (status_entries mp tracked_only text')))
     \<and> ([34] @ name @ [34], mode) \<in> set (status_entries mp tracked_only text')
     \<and> status_pair root ([34] @ name @ [34], mode) = (path_join root name, mode)
     \<and> (\<exists>p. path_join root name = p @ name)
     \<and> path_join root name \<in> dom d
     \<and> ((\<forall>e \<in> set (status_entries mp tracked_only text').
            fst (status_pair root e) = path_join root name \<longrightarrow> snd e = mode)
          \<longrightarrow> d (path_join root name) = Some mode)
     \<and> (\<forall>q. q \<notin> fst ` status_pair root ` set (status_entries mp tracked_only text')
          \<longrightarrow> d q = None)"
proof -
  let ?es = "status_entries mp tracked_only text'"
  let ?ps = "rev (map (status_pair root) ?es)"
  let ?fn = "[34] @ name @ [34]"
  let ?k = "path_join root name"
  have a: "modified_files mp git root tracked_only commits = ([status_cmd], Inr (map_of ?ps))"
    using assms(1-4) by (rule modified_files_status_entries)
  have "10 \<notin> set (mode @ [32, 34] @ name @ [34])" using assms(6) by (rule split_on_no_sep)
  then have "10 \<notin> set ?fn" by simp
  then have "status_entry mp tracked_only (mode @ 32 # ?fn) = Some (?fn, mode)"
    using status_entry_line [OF assms(5), of ?fn mp] by simp
  then have b: "(?fn, mode) \<in> set ?es"
    using assms(6) by (auto simp add: status_entries_def set_map_filter_iff)
  have c: "status_pair root (?fn, mode) = (?k, mode)"
    using remove_quotes_wrapped [of name] by (simp add: status_pair_def)
  have "(?k, mode) \<in> set ?ps" using b c by force
  then have k: "?k \<in> fst ` set ?ps" by (metis fst_conv image_eqI)
  then have e: "?k \<in> dom (map_of ?ps)" by (simp add: dom_map_of_conv_image_fst)
  have f: "map_of ?ps ?k = Some mode"
    if "\<forall>e \<in> set ?es. fst (status_pair root e) = ?k \<longrightarrow> snd e = mode"
  proof (rule map_of_agree [OF k])
    show "\<forall>p \<in> set ?ps. fst p = ?k \<longrightarrow> snd p = mode"
      using that by (auto simp add: status_pair_snd)
  qed
  have g: "map_of ?ps q = None" if "q \<notin> fst ` status_pair root ` set ?es" for q
    using that by (simp add: map_of_eq_None_iff image_image)
  obtain p where p: "?k = p @ name" using path_join_suffix [of root name] by blast
  show ?thesis
  proof (intro exI conjI)
    show "modified_files mp git root tracked_only commits = ([status_cmd], Inr (map_of ?ps))"
      by (rule a)
    show "map_of ?ps = map_of ?ps" by (rule refl)
    show "(?fn, mode) \<in> set ?es" by (rule b)
    show "status_pair root (?fn, mode) = (?k, mode)" by (rule c)
    show "?k = p @ name" by (rule p)
    show "?k \<in> dom (map_of ?ps)" by (rule e)
    show "(\<forall>e \<in> set ?es. fst (status_pair root e) = ?k \<longrightarrow> snd e = mode)
        \<longrightarrow> map_of ?ps ?k = Some mode"
      using f by blast
    show "\<forall>q. q \<notin> fst ` status_pair root ` set ?es \<longrightarrow> map_of ?ps q = None"
      using g by blast
  qed
qed

theorem modified_files_strips_quotes_witness:
  "\<forall>mp. \<exists>d. modified_files mp (\<lambda>args. Exited0 quoted_status) (u ''/repo'') False None
       = ([status_cmd], Inr d)
     \<and> d (u ''/repo/weird name.txt'') = Some (u ''A '')
     \<and> d (u ''/repo/\"weird name.txt\"'') = None"
proof
  fix mp
  let ?git = "\<lambda>args :: str list. Exited0 quoted_status"
  let ?text = "u ''A  \"weird name.txt\"'' @ [10]"
  have h1: "isabs (u ''/repo'')" by (simp add: isabs_def u_def)
  have h2: "(None :: str list option) = None \<or> None = Some ([] :: str list)" by simp
  have h3: "?git status_cmd = Exited0 quoted_status" by simp
  have h5: "u ''A '' \<in> set (modes False)" by (simp add: modes_def)
  have s: "split_on 10 ?text = [u ''A '' @ 32 # ([34] @ u ''weird name.txt'' @ [34]), []]"
    by (simp add: u_def)
  have h6: "u ''A '' @ [32, 34] @ u ''weird name.txt'' @ [34] \<in> set (split_on 10 ?text)"
    by (simp add: u_def)
  have "status_entry mp False (u ''A '' @ 32 # ([34] @ u ''weird name.txt'' @ [34]))
      = Some ([34] @ u ''weird name.txt'' @ [34], u ''A '')"
    by (rule status_entry_line [OF h5]) (simp_all add: u_def)
  then have es: "status_entries mp False ?text = [([34] @ u ''weird name.txt'' @ [34], u ''A '')]"
    by (simp only: status_entries_def s) (simp add: List.map_filter_simps status_entry_Nil)
  have p: "status_pair (u ''/repo'') ([34] @ u ''weird name.txt'' @ [34], u ''A '')
      = (u ''/repo/weird name.txt'', u ''A '')"
    using remove_quotes_wrapped [of "u ''weird name.txt''"]
    by (simp only: status_pair_def fst_conv snd_conv) (simp add: path_join_def isabs_def u_def)
  have q: "u ''/repo/\"weird name.txt\"'' \<noteq> u ''/repo/weird name.txt''" by (simp add: u_def)
  obtain d where d: "modified_files mp ?git (u ''/repo'') False None = ([status_cmd], Inr d)"
    "d = map_of (rev (map (status_pair (u ''/repo'')) (status_entries mp False ?text)))"
    using modified_files_strips_quotes
      [of "u ''/repo''" None ?git quoted_status ?text "u ''A ''" False "u ''weird name.txt''" mp]
      h1 h2 h3 decode_quoted_status h5 h6
    by blast
  have m: "d = [u ''/repo/weird name.txt'' \<mapsto> u ''A '']"
    by (simp only: d(2) es list.map rev.simps append_Nil p map_of.simps fst_conv snd_conv)
  show "\<exists>d. modified_files mp ?git (u ''/repo'') False None = ([status_cmd], Inr d)
      \<and> d (u ''/repo/weird name.txt'') = Some (u ''A '')
      \<and> d (u ''/repo/\"weird name.txt\"'') = None"
    using d(1) q by (simp add: m)
qed

end
